theory Spec2Isabelle
  imports Main "HOL-Library.AList"
begin

section \<open>JavaScript values\<close>

text \<open>
  The values an attribute bag can hold. A primitive is its own constructor. An object
  carries its identity: two references denote the same object exactly when the
  identities are equal, so "passed by reference" reads as equality of the value, identity
  included (a copy would be a new object with a new identity). An ordinary object is its
  identity, its class and its properties in enumeration order; an array is the object of
  class \<open>ArrayObject\<close> whose properties are its indices. Numbers are restricted to integers.

  Vue's two reactive wrappers are constructors of their own: \<open>RefImpl i v\<close> is a ref
  (also a shallow or a computed one) whose \<open>.value\<close> currently reads \<open>v\<close>, and
  \<open>ReactiveProxy i t\<close> is the proxy that \<open>reactive(t)\<close> made around the target \<open>t\<close>.
  \<open>JBuiltin n\<close> is the member of \<open>Object.prototype\<close> that every object literal inherits
  under the property name \<open>n\<close> (\<open>constructor\<close>, \<open>toString\<close>, ...).
\<close>

type_synonym ident = nat

datatype objclass = PlainObject | ArrayObject | DateObject | RegExpObject | MapObject | SetObject

datatype jsval =
    JUndefined
  | JNull
  | JBool bool
  | JNum int
  | JStr string
  | JSymbol nat
  | JBigInt int
  | JFunction ident
  | JObject ident objclass "(string \<times> jsval) list"
  | RefImpl ident jsval
  | ReactiveProxy ident jsval
  | JBuiltin string

text \<open>The \<open>typeof\<close> operator.\<close>

fun typeof :: "jsval \<Rightarrow> string" where
  "typeof JUndefined = ''undefined''"
| "typeof JNull = ''object''"
| "typeof (JBool b) = ''boolean''"
| "typeof (JNum n) = ''number''"
| "typeof (JStr s) = ''string''"
| "typeof (JSymbol n) = ''symbol''"
| "typeof (JBigInt n) = ''bigint''"
| "typeof (JFunction f) = ''function''"
| "typeof (JObject i c ps) = ''object''"
| "typeof (RefImpl i v) = ''object''"
| "typeof (ReactiveProxy i t) = ''object''"
| "typeof (JBuiltin n) = (if n = ''__proto__'' then ''object'' else ''function'')"

text \<open>Truthiness, as \<open>!v\<close>, \<open>a && b\<close> and \<open>if (v)\<close> read a value.\<close>

fun truthy :: "jsval \<Rightarrow> bool" where
  "truthy JUndefined = False"
| "truthy JNull = False"
| "truthy (JBool b) = b"
| "truthy (JNum n) = (n \<noteq> 0)"
| "truthy (JStr s) = (s \<noteq> [])"
| "truthy (JBigInt n) = (n \<noteq> 0)"
| "truthy v = True"

subsection \<open>Strings\<close>

text \<open>\<open>s.startsWith(p)\<close>, \<open>s.endsWith(p)\<close> and \<open>s.includes(p)\<close>.\<close>

definition startsWith :: "string \<Rightarrow> string \<Rightarrow> bool" where
  "startsWith s p = (take (length p) s = p)"

definition endsWith :: "string \<Rightarrow> string \<Rightarrow> bool" where
  "endsWith s p = (length p \<le> length s \<and> drop (length s - length p) s = p)"

fun includes_str :: "string \<Rightarrow> string \<Rightarrow> bool" where
  "includes_str [] p = (p = [])"
| "includes_str (c # cs) p = (startsWith (c # cs) p \<or> includes_str cs p)"

section \<open>Vue's reactivity helpers\<close>

text \<open>
  \<open>filterProps\<close> imports \<open>isRef\<close>, \<open>unref\<close>, \<open>isReactive\<close> and \<open>toRaw\<close> from Vue. They are
  modelled by what Vue documents for them, on the two wrapper constructors: \<open>isRef\<close> holds
  of ref objects only, \<open>unref\<close> reads the \<open>.value\<close> of a ref and returns anything else as
  it is, \<open>isReactive\<close> holds of the proxies made by \<open>reactive\<close> only, and \<open>toRaw\<close> follows
  a proxy down to the object it was made around. Vue recognises its wrappers by private
  flag fields (\<open>__v_isRef\<close>, \<open>__v_isReactive\<close>, \<open>__v_raw\<close>); ordinary objects of the model
  are taken not to forge them.
\<close>

fun isRef :: "jsval \<Rightarrow> bool" where
  "isRef (RefImpl i v) = True"
| "isRef v = False"

fun unref :: "jsval \<Rightarrow> jsval" where
  "unref (RefImpl i v) = v"
| "unref v = v"

fun isReactive :: "jsval \<Rightarrow> bool" where
  "isReactive (ReactiveProxy i t) = True"
| "isReactive v = False"

fun toRaw :: "jsval \<Rightarrow> jsval" where
  "toRaw (ReactiveProxy i t) = toRaw t"
| "toRaw v = v"

text \<open>
  Property access, as far as the source uses it: \<open>key in val\<close> and \<open>val[key]\<close> on a value
  whose \<open>typeof\<close> is \<open>object\<close>. An ordinary object answers from its properties. Of a ref
  object's fields the two public ones are modelled; its private bookkeeping fields have
  other names. A reactive proxy forwards \<open>in\<close> to its target, and a read through it
  unwraps a ref found in the target (a nested object comes back wrapped in a proxy of
  its own, which is as truthy as the object it wraps: the model returns the object).
\<close>

fun in_op :: "string \<Rightarrow> jsval \<Rightarrow> bool" where
  "in_op k (JObject i c ps) = (map_of ps k \<noteq> None)"
| "in_op k (RefImpl i v) = (k = ''__v_isRef'' \<or> k = ''value'')"
| "in_op k (ReactiveProxy i t) = in_op k t"
| "in_op k v = False"

fun get_prop :: "jsval \<Rightarrow> string \<Rightarrow> jsval" where
  "get_prop (JObject i c ps) k = (case map_of ps k of Some v \<Rightarrow> v | None \<Rightarrow> JUndefined)"
| "get_prop (RefImpl i v) k =
     (if k = ''value'' then v else if k = ''__v_isRef'' then JBool True else JUndefined)"
| "get_prop (ReactiveProxy i t) k =
     (if k = ''__v_isReactive'' then JBool True
      else if k = ''__v_raw'' then t
      else unref (get_prop t k))"
| "get_prop v k = JUndefined"




section \<open>The attribute sanitizer: \<open>filterProps\<close> of \<open>utils/filter-props.ts\<close>\<close>

text \<open>
  An attribute bag is the list of its entries in the order \<open>for (const key in attrs)\<close>
  visits them; a JavaScript object lists each key once. \<open>cleanProps[key] = val\<close> is
  \<open>AList.update\<close>: it overwrites the entry of a key that is there and appends one that is
  not.
\<close>

type_synonym bag = "(string \<times> jsval) list"

definition isVNode :: "jsval \<Rightarrow> bool" where
  "isVNode val \<longleftrightarrow>
     typeof val = ''object'' \<and> val \<noteq> JNull \<and> in_op ''__v_isVNode'' val
       \<and> truthy (get_prop val ''__v_isVNode'')"

fun filterProps_loop :: "bag \<Rightarrow> bag \<Rightarrow> bag" where
  "filterProps_loop [] cleanProps = cleanProps"
| "filterProps_loop ((key, v) # rest) cleanProps =
     (if startsWith key ''__'' \<or> startsWith key ''on'' \<or> key = ''class'' \<or> key = ''style''
      then filterProps_loop rest cleanProps
      else if isVNode v
      then filterProps_loop rest cleanProps
      else let val1 = (if isRef v then unref v else v);
               val2 = (if isReactive val1 then toRaw val1 else val1)
           in filterProps_loop rest (AList.update key val2 cleanProps))"

definition filterProps :: "bag \<Rightarrow> bag" where
  "filterProps attrs = filterProps_loop attrs []"

text \<open>
  The condition of the loop's first \<open>continue\<close>, and what the two unwrapping steps make of
  a value, named for the statements below.
\<close>

definition vue_internal_key :: "string \<Rightarrow> bool" where
  "vue_internal_key key \<longleftrightarrow>
     startsWith key ''__'' \<or> startsWith key ''on'' \<or> key = ''class'' \<or> key = ''style''"

definition unwrapped :: "jsval \<Rightarrow> jsval" where
  "unwrapped v = (if isReactive (unref v) then toRaw (unref v) else unref v)"

section \<open>The build-time transform hook\<close>

text \<open>
  The \<open>transform(code, id)\<close> hook of the Vite plugin. \<open>esbuild.transform\<close> is a parameter:
  given the source text and the loader it returns the compiled code with its source map,
  or throws (\<open>Inl\<close>), and then the hook's promise rejects with the same error. The regular
  expression \<open>/\.[jt]sx$/\<close> holds of the identifiers that end in \<open>.jsx\<close> or \<open>.tsx\<close>.
\<close>

datatype loader = Jsx | Tsx

datatype hook_result = Null | Transformed string string

type_synonym esbuild = "string \<Rightarrow> loader \<Rightarrow> string + (string \<times> string)"

definition test_jtsx :: "string \<Rightarrow> bool" where
  "test_jtsx file_id \<longleftrightarrow> endsWith file_id ''.jsx'' \<or> endsWith file_id ''.tsx''"

definition transform :: "esbuild \<Rightarrow> string \<Rightarrow> string \<Rightarrow> string + hook_result" where
  "transform esbuild_transform code file_id =
     (if \<not> includes_str file_id ''react-components'' \<or> \<not> test_jtsx file_id then Inr Null
      else case esbuild_transform code (if endsWith file_id ''.tsx'' then Tsx else Jsx) of
             Inl err \<Rightarrow> Inl err
           | Inr (out_code, out_map) \<Rightarrow> Inr (Transformed out_code out_map))"

section \<open>The component registry of \<open>components/React.vue\<close>\<close>

text \<open>
  The registry is the object literal \<open>{}\<close> that \<open>loadRegistry\<close> fills: the list of its own
  properties in insertion order. A read \<open>registry?.[name]\<close> finds an own property first
  and otherwise what the literal inherits from \<open>Object.prototype\<close>; \<open>Object.keys\<close> lists
  the own properties only. (An assignment to the name \<open>__proto__\<close> is modelled as an own
  property like any other.)
\<close>

type_synonym registry = "(string \<times> jsval) list"

definition object_prototype_names :: "string list" where
  "object_prototype_names =
     [''constructor'', ''hasOwnProperty'', ''isPrototypeOf'', ''propertyIsEnumerable'',
      ''toLocaleString'', ''toString'', ''valueOf'', ''__proto__'',
      ''__defineGetter__'', ''__defineSetter__'', ''__lookupGetter__'', ''__lookupSetter__'']"

fun registry_get :: "registry option \<Rightarrow> string \<Rightarrow> jsval" where
  "registry_get None name = JUndefined"
| "registry_get (Some reg) name =
     (case map_of reg name of
        Some c \<Rightarrow> c
      | None \<Rightarrow> if name \<in> set object_prototype_names then JBuiltin name else JUndefined)"

text \<open>
  \<open>s.split(sep)\<close> for a one-character separator (the result is never empty: it has one
  piece more than \<open>s\<close> has separators), and \<open>xs.join(sep)\<close>.
\<close>

fun split_str :: "char \<Rightarrow> string \<Rightarrow> string list" where
  "split_str sep [] = [[]]"
| "split_str sep (c # cs) =
     (if c = sep then [] # split_str sep cs
      else case split_str sep cs of
             [] \<Rightarrow> [[c]]
           | piece # pieces \<Rightarrow> (c # piece) # pieces)"

fun join_str :: "string \<Rightarrow> string list \<Rightarrow> string" where
  "join_str sep [] = []"
| "join_str sep [x] = x"
| "join_str sep (x # y # ys) = x @ sep @ join_str sep (y # ys)"

text \<open>
  What the comment above the hook's test says the test decides ("only transform .jsx/.tsx
  files in react-components folder"), in the specification's words that the path
  contains the directory segment: one of the segments of the path is
  \<open>react-components\<close>. The hook itself tests \<open>id.includes('react-components')\<close>, which is
  \<open>includes_str\<close> in \<open>transform\<close>; this second predicate is what it is compared with.
\<close>

definition in_components_folder :: "string \<Rightarrow> bool" where
  "in_components_folder path \<longleftrightarrow> ''react-components'' \<in> set (split_str CHR ''/'' path)"

text \<open>
  \<open>path.split('/').pop()?.replace(/\.(jsx|tsx)$/, '') || ''\<close>: the last segment of the
  path without its \<open>.jsx\<close> or \<open>.tsx\<close> ending.
\<close>

definition component_name :: "string \<Rightarrow> string" where
  "component_name path =
     (let file = last (split_str CHR ''/'' path)
      in if endsWith file ''.jsx'' \<or> endsWith file ''.tsx''
         then take (length file - 4) file else file)"

text \<open>
  What \<open>import.meta.glob('/react-components/**/*.{jsx,tsx}', { eager: true })\<close> returns:
  the scanned paths in enumeration order, each with its module. Of a module only
  \<open>mod.default\<close> is read: \<open>Some v\<close> for a default export of value \<open>v\<close>, \<open>None\<close> for a module
  without one (the read gives \<open>undefined\<close>).
\<close>

type_synonym modules = "(string \<times> jsval option) list"

definition mod_default :: "jsval option \<Rightarrow> jsval" where
  "mod_default m = (case m of None \<Rightarrow> JUndefined | Some v \<Rightarrow> v)"

fun loadRegistry_loop :: "modules \<Rightarrow> registry \<Rightarrow> registry" where
  "loadRegistry_loop [] reg = reg"
| "loadRegistry_loop ((path, m) # rest) reg =
     (let name = component_name path
      in if name \<noteq> [] \<and> truthy (mod_default m)
         then loadRegistry_loop rest (AList.update name (mod_default m) reg)
         else loadRegistry_loop rest reg)"

section \<open>The embedding bridge of \<open>components/React.vue\<close>\<close>

text \<open>
  The file holds two versions of the component. They differ in \<open>loadRegistry\<close> (the
  first scans the directory, the second imports the explicit map
  \<open>/react-components/index.ts\<close>) and in the inline loop that builds the props (the second
  also leaves out every object); the rest of \<open>renderReact\<close> and the hooks are the same
  text. The model follows the first and takes the second's two differences where the
  environment says \<open>ExplicitMap\<close>.

  One bridge is one instance of the component: the variables of its \<open>script setup\<close> block
  (\<open>container\<close>, \<open>root\<close>, \<open>registry\<close>; each instance has its own) and what the host hands it
  (\<open>props.is\<close> and \<open>instance.attrs\<close>). \<open>container\<close> is the template ref of the mount
  point: the host sets it before it runs the mounted hook and clears it when it unmounts
  the node, before it runs the unmounted hook.
\<close>

record bridge =
  container :: "nat option"
  root :: "nat option"
  registry :: "registry option"
  is_prop :: string
  instance_attrs :: bag

text \<open>
  What a run does to the outside, in order: calls of \<open>loadRegistry\<close>, console output, guest
  roots created, render calls, unmounts, and the exception a \<open>renderReact\<close> call dies of.
\<close>

datatype event =
    LoadRegistry nat
  | ConsoleWarn string
  | ConsoleError string
  | CreateRoot nat nat nat
  | Render nat nat jsval bag
  | Unmount nat nat
  | Uncaught nat string

text \<open>
  \<open>renderReact\<close> is an \<open>async\<close> function: it runs until an \<open>await\<close>, is suspended there, and
  is resumed later by the event loop, other code running in between. Its three \<open>await\<close>s
  are the three places a call can be suspended at; the constant \<open>ReactComp\<close> is the local
  it carries across the later two. Everything else it reads again when it is resumed.
  In the second version \<open>loadRegistry\<close> has an \<open>await\<close> of its own, on the import of the
  map: a call inside it is suspended at \<open>AwaitIndexImport\<close>.
\<close>

datatype suspended =
    AwaitIndexImport
  | AwaitLoadRegistry
  | AwaitReactDOMClient jsval
  | AwaitReact jsval

record process =
  bridges :: "nat \<Rightarrow> bridge"
  tasks :: "(nat \<times> suspended) list"
  events :: "event list"
  next_root :: nat

text \<open>
  The environment of a run: which version of the component runs, the scanned modules
  (first version), what the import of the explicit map resolves to (second version:
  \<open>Some reg\<close> for the object \<open>mod.default || mod\<close>, \<open>None\<close> when the import fails), and
  whether the guest runtime exports \<open>createRoot\<close>. The dynamic imports of
  \<open>react-dom/client\<close> and \<open>react\<close> are taken to resolve, and \<open>react\<close> to export
  \<open>createElement\<close>.
\<close>

datatype version = DirectoryScan | ExplicitMap

record env =
  version :: version
  glob_modules :: modules
  index_module :: "registry option"
  has_createRoot :: bool

definition emit :: "event \<Rightarrow> process \<Rightarrow> process" where
  "emit ev s = s\<lparr>events := events s @ [ev]\<rparr>"

definition suspend :: "nat \<Rightarrow> suspended \<Rightarrow> process \<Rightarrow> process" where
  "suspend b k s = s\<lparr>tasks := tasks s @ [(b, k)]\<rparr>"

definition set_bridge :: "nat \<Rightarrow> bridge \<Rightarrow> process \<Rightarrow> process" where
  "set_bridge b br s = s\<lparr>bridges := (bridges s)(b := br)\<rparr>"

text \<open>
  \<open>loadRegistry\<close> of the first version (lines 22 to 40). With \<open>eager: true\<close> the glob is a
  table built at compile time, so the body has no \<open>await\<close> and nothing in its \<open>try\<close> block
  throws: the call fills the registry before it returns.
\<close>

definition loadRegistry :: "env \<Rightarrow> nat \<Rightarrow> process \<Rightarrow> process" where
  "loadRegistry e b s =
     set_bridge b ((bridges s b)\<lparr>registry := Some (loadRegistry_loop (glob_modules e) [])\<rparr>)
       (emit (LoadRegistry b) s)"

text \<open>
  \<open>loadRegistry\<close> of the second version (lines 117 to 125) is entered, starts the import
  and is suspended; \<open>loadRegistry_import\<close> is what it does when the import has settled:
  it sets the registry to the map, or logs the failure and sets it to \<open>{}\<close>.
\<close>

definition loadRegistry_import :: "env \<Rightarrow> nat \<Rightarrow> process \<Rightarrow> process" where
  "loadRegistry_import e b s =
     (case index_module e of
        Some reg \<Rightarrow> set_bridge b ((bridges s b)\<lparr>registry := Some reg\<rparr>) s
      | None \<Rightarrow>
          set_bridge b ((bridges s b)\<lparr>registry := Some []\<rparr>)
            (emit (ConsoleError
               ''[slidev-addon-react] Failed to load react-components/index.ts:'') s))"

text \<open>
  The inline loop of \<open>renderReact\<close> that builds \<open>cleanProps\<close>: lines 72 to 80 in the first
  version, lines 159 to 169 in the second.
\<close>

fun renderReact_cleanProps :: "bag \<Rightarrow> bag \<Rightarrow> bag" where
  "renderReact_cleanProps [] cleanProps = cleanProps"
| "renderReact_cleanProps ((key, v) # rest) cleanProps =
     (if startsWith key ''__'' \<or> startsWith key ''on'' \<or> key = ''class'' \<or> key = ''style''
      then renderReact_cleanProps rest cleanProps
      else renderReact_cleanProps rest (AList.update key v cleanProps))"

fun renderReact_cleanProps_old :: "bag \<Rightarrow> bag \<Rightarrow> bag" where
  "renderReact_cleanProps_old [] cleanProps = cleanProps"
| "renderReact_cleanProps_old ((key, v) # rest) cleanProps =
     (if startsWith key ''__'' \<or> startsWith key ''on'' \<or> key = ''class'' \<or> key = ''style''
      then renderReact_cleanProps_old rest cleanProps
      else if typeof v \<noteq> ''object'' \<or> v = JNull
      then renderReact_cleanProps_old rest (AList.update key v cleanProps)
      else renderReact_cleanProps_old rest cleanProps)"

text \<open>
  The text of the warning: the name, and \<open>Object.keys(registry).join(', ')\<close> (or \<open>none\<close>
  without a registry). The keys are listed in insertion order; the model does not move
  integer-like names to the front as JavaScript does.
\<close>

definition not_found_message :: "string \<Rightarrow> registry option \<Rightarrow> string" where
  "not_found_message name reg =
     ''[slidev-addon-react] Component '' @ [CHR 0x22] @ name @ [CHR 0x22]
       @ '' not found. Available: ''
       @ (case reg of None \<Rightarrow> ''none'' | Some r \<Rightarrow> join_str '', '' (map fst r))"

text \<open>Lines 49 to 58: resolve the name; warn and stop, or go on to the next \<open>await\<close>.\<close>

definition renderReact_resolve :: "env \<Rightarrow> nat \<Rightarrow> process \<Rightarrow> process" where
  "renderReact_resolve e b s =
     (let br = bridges s b;
          ReactComp = registry_get (registry br) (is_prop br)
      in if \<not> truthy ReactComp
         then emit (ConsoleWarn (not_found_message (is_prop br) (registry br))) s
         else if root br = None then suspend b (AwaitReactDOMClient ReactComp) s
         else suspend b (AwaitReact ReactComp) s)"

text \<open>
  Lines 59 to 67, after \<open>react-dom/client\<close> has arrived. \<open>createRoot\<close> throws on a
  container that is \<open>null\<close>.
\<close>

definition renderReact_createRoot :: "env \<Rightarrow> nat \<Rightarrow> jsval \<Rightarrow> process \<Rightarrow> process" where
  "renderReact_createRoot e b ReactComp s =
     (if \<not> has_createRoot e
      then emit (ConsoleError ''[slidev-addon-react] createRoot not found'') s
      else case container (bridges s b) of
             None \<Rightarrow> emit (Uncaught b ''createRoot: target container is null'') s
           | Some el \<Rightarrow>
               suspend b (AwaitReact ReactComp)
                 (set_bridge b ((bridges s b)\<lparr>root := Some (next_root s)\<rparr>)
                   (emit (CreateRoot b el (next_root s)) (s\<lparr>next_root := Suc (next_root s)\<rparr>))))"

text \<open>
  Lines 68 to 82, after \<open>react\<close> has arrived: the props are built from the attributes of
  this moment, and \<open>root.render\<close> reads the variable \<open>root\<close> of this moment (a
  \<open>TypeError\<close> when it is \<open>null\<close>).
\<close>

definition renderReact_render :: "env \<Rightarrow> nat \<Rightarrow> jsval \<Rightarrow> process \<Rightarrow> process" where
  "renderReact_render e b ReactComp s =
     (let br = bridges s b;
          cleanProps = (case version e of
                          DirectoryScan \<Rightarrow> renderReact_cleanProps (instance_attrs br) []
                        | ExplicitMap \<Rightarrow> renderReact_cleanProps_old (instance_attrs br) [])
      in case root br of
           None \<Rightarrow> emit (Uncaught b ''TypeError: root is null'') s
         | Some r \<Rightarrow> emit (Render b r ReactComp cleanProps) s)"

text \<open>
  Lines 42 to 47: a call of \<open>renderReact\<close>, up to its first \<open>await\<close> or its return. The
  first version's \<open>loadRegistry()\<close> has run to its end when the call is suspended; the
  second version's has only been entered.
\<close>

definition renderReact :: "env \<Rightarrow> nat \<Rightarrow> process \<Rightarrow> process" where
  "renderReact e b s =
     (if container (bridges s b) = None then s
      else if registry (bridges s b) = None
      then (case version e of
              DirectoryScan \<Rightarrow> suspend b AwaitLoadRegistry (loadRegistry e b s)
            | ExplicitMap \<Rightarrow> suspend b AwaitIndexImport (emit (LoadRegistry b) s))
      else renderReact_resolve e b s)"

text \<open>The event loop resumes the suspended call at position \<open>i\<close>.\<close>

definition resume :: "env \<Rightarrow> nat \<Rightarrow> process \<Rightarrow> process" where
  "resume e i s =
     (if i < length (tasks s)
      then let s' = s\<lparr>tasks := take i (tasks s) @ drop (Suc i) (tasks s)\<rparr>
           in case tasks s ! i of
                (b, AwaitIndexImport) \<Rightarrow> suspend b AwaitLoadRegistry (loadRegistry_import e b s')
              | (b, AwaitLoadRegistry) \<Rightarrow> renderReact_resolve e b s'
              | (b, AwaitReactDOMClient ReactComp) \<Rightarrow> renderReact_createRoot e b ReactComp s'
              | (b, AwaitReact ReactComp) \<Rightarrow> renderReact_render e b ReactComp s'
      else s)"

text \<open>The \<open>onUnmounted\<close> hook (lines 87 to 90): \<open>root?.unmount(); root = null\<close>.\<close>

definition onUnmounted :: "nat \<Rightarrow> process \<Rightarrow> process" where
  "onUnmounted b s =
     set_bridge b ((bridges s b)\<lparr>root := None\<rparr>)
       (case root (bridges s b) of None \<Rightarrow> s | Some r \<Rightarrow> emit (Unmount b r) s)"

text \<open>
  What happens to a process: the host mounts a bridge (\<open>onMounted(renderReact)\<close>), changes
  its attributes or its component name (the two \<open>watch\<close>es), destroys it, or the event
  loop resumes a suspended call. A run is any sequence of these, so every interleaving
  of the suspended calls is a run. \<open>AttrsChanged\<close> stands for a change of attributes
  on which the deep watch on \<open>instance.attrs\<close> fires; Vue does not fire it on every
  change (not when the host only replaces attribute values), so the runs of the model
  include some that the host never produces. What holds of every run holds of the
  host's; a run that is to show what the code can do uses \<open>NameChanged\<close>, the watch on
  \<open>props.is\<close>, which fires on every change of the name.
\<close>

datatype action =
    Mount nat nat
  | AttrsChanged nat bag
  | NameChanged nat string
  | Destroy nat
  | Resume nat

fun fire :: "env \<Rightarrow> action \<Rightarrow> process \<Rightarrow> process" where
  "fire e (Mount b el) s =
     renderReact e b (set_bridge b ((bridges s b)\<lparr>container := Some el\<rparr>) s)"
| "fire e (AttrsChanged b a) s =
     renderReact e b (set_bridge b ((bridges s b)\<lparr>instance_attrs := a\<rparr>) s)"
| "fire e (NameChanged b n) s =
     renderReact e b (set_bridge b ((bridges s b)\<lparr>is_prop := n\<rparr>) s)"
| "fire e (Destroy b) s =
     onUnmounted b (set_bridge b ((bridges s b)\<lparr>container := None\<rparr>) s)"
| "fire e (Resume i) s = resume e i s"

fun run :: "env \<Rightarrow> action list \<Rightarrow> process \<Rightarrow> process" where
  "run e [] s = s"
| "run e (a # as) s = run e as (fire e a s)"

text \<open>
  A process before anything has happened: bridge \<open>b\<close> is to show the component
  \<open>names ! b\<close> (bridges beyond the list have the empty name).
\<close>

definition new_bridge :: "string \<Rightarrow> bridge" where
  "new_bridge name =
     \<lparr>container = None, root = None, registry = None, is_prop = name, instance_attrs = []\<rparr>"

definition start :: "string list \<Rightarrow> process" where
  "start names =
     \<lparr>bridges = (\<lambda>b. new_bridge (if b < length names then names ! b else [])),
      tasks = [], events = [], next_root = 0\<rparr>"

text \<open>A render request that reaches bridge \<open>b\<close> from one of its two watches.\<close>

fun render_request :: "nat \<Rightarrow> action \<Rightarrow> bool" where
  "render_request b (AttrsChanged b' a) = (b' = b)"
| "render_request b (NameChanged b' n) = (b' = b)"
| "render_request b a = False"

text \<open>How many times \<open>loadRegistry\<close> was called for bridge \<open>b\<close>.\<close>

definition loads_started :: "nat \<Rightarrow> process \<Rightarrow> nat" where
  "loads_started b s = length (filter (\<lambda>ev. ev = LoadRegistry b) (events s))"

text \<open>
  The invariant behind the load count: a bridge has started at most one load, and one
  without a registry has started none and has no call waiting for one.
\<close>

definition load_once :: "nat \<Rightarrow> process \<Rightarrow> bool" where
  "load_once b s \<longleftrightarrow>
     loads_started b s \<le> 1
     \<and> (registry (bridges s b) = None
          \<longrightarrow> loads_started b s = 0 \<and> (b, AwaitLoadRegistry) \<notin> set (tasks s))"

section \<open>Properties of the sanitizer\<close>

lemma unref_if: "(if isRef v then unref v else v) = unref v"
  by (cases v) simp_all

lemma filterProps_loop_Cons:
  "filterProps_loop ((key, v) # rest) acc =
     (if vue_internal_key key \<or> isVNode v then filterProps_loop rest acc
      else filterProps_loop rest (AList.update key (unwrapped v) acc))"
  by (simp add: vue_internal_key_def unwrapped_def Let_def unref_if)

lemma filterProps_loop_keys:
  "fst ` set (filterProps_loop attrs acc)
     \<subseteq> fst ` set acc \<union> {k \<in> fst ` set attrs. \<not> vue_internal_key k}"
proof (induction attrs arbitrary: acc)
  case Nil
  then show ?case by simp
next
  case (Cons e attrs)
  obtain key v where e: "e = (key, v)" by (cases e)
  show ?case
  proof (cases "vue_internal_key key \<or> isVNode v")
    case True
    then show ?thesis
      using Cons.IH[of acc] unfolding e filterProps_loop_Cons by auto
  next
    case False
    then show ?thesis
      using Cons.IH[of "AList.update key (unwrapped v) acc"]
      unfolding e filterProps_loop_Cons by (auto simp: dom_update simp del: AList.update.simps)
  qed
qed

lemma filterProps_loop_map_of:
  "distinct (map fst attrs) \<Longrightarrow>
   map_of (filterProps_loop attrs acc) k =
     (case map_of attrs k of
        None \<Rightarrow> map_of acc k
      | Some v \<Rightarrow>
          if vue_internal_key k \<or> isVNode v then map_of acc k else Some (unwrapped v))"
proof (induction attrs arbitrary: acc)
  case Nil
  then show ?case by simp
next
  case (Cons e attrs)
  obtain key v where e: "e = (key, v)" by (cases e)
  from Cons.prems have d: "distinct (map fst attrs)" and nk: "key \<notin> fst ` set attrs"
    by (auto simp: e)
  from nk have none: "map_of attrs key = None" by (simp add: map_of_eq_None_iff)
  show ?case
  proof (cases "vue_internal_key key \<or> isVNode v")
    case True
    then show ?thesis
      using Cons.IH[OF d, of acc] none unfolding e filterProps_loop_Cons by auto
  next
    case False
    then show ?thesis
      using Cons.IH[OF d, of "AList.update key (unwrapped v) acc"] none
      unfolding e filterProps_loop_Cons
      by (auto simp: update_conv' split: option.splits simp del: AList.update.simps)
  qed
qed

lemma filterProps_map_of:
  "distinct (map fst attrs) \<Longrightarrow>
   map_of (filterProps attrs) k =
     (case map_of attrs k of
        None \<Rightarrow> None
      | Some v \<Rightarrow> if vue_internal_key k \<or> isVNode v then None else Some (unwrapped v))"
  by (simp add: filterProps_def filterProps_loop_map_of split: option.splits)

lemma filterProps_keys:
  "fst ` set (filterProps attrs) \<subseteq> {k \<in> fst ` set attrs. \<not> vue_internal_key k}"
  using filterProps_loop_keys[of attrs "[]"] by (simp add: filterProps_def)

lemma renderReact_cleanProps_old_keys:
  "fst ` set (renderReact_cleanProps_old attrs acc)
     \<subseteq> fst ` set acc \<union> {k \<in> fst ` set attrs. \<not> vue_internal_key k}"
proof (induction attrs arbitrary: acc)
  case Nil
  then show ?case by simp
next
  case (Cons e attrs)
  obtain key v where e: "e = (key, v)" by (cases e)
  have step: "renderReact_cleanProps_old ((key, v) # attrs) acc =
     (if vue_internal_key key \<or> \<not> (typeof v \<noteq> ''object'' \<or> v = JNull)
      then renderReact_cleanProps_old attrs acc
      else renderReact_cleanProps_old attrs (AList.update key v acc))"
    by (simp add: vue_internal_key_def)
  show ?case
  proof (cases "vue_internal_key key \<or> \<not> (typeof v \<noteq> ''object'' \<or> v = JNull)")
    case True
    then show ?thesis using Cons.IH[of acc] unfolding e step by auto
  next
    case False
    then show ?thesis
      using Cons.IH[of "AList.update key v acc"]
      unfolding e step by (auto simp: dom_update simp del: AList.update.simps)
  qed
qed

lemma renderReact_cleanProps_keys:
  "fst ` set (renderReact_cleanProps attrs acc)
     \<subseteq> fst ` set acc \<union> {k \<in> fst ` set attrs. \<not> vue_internal_key k}"
proof (induction attrs arbitrary: acc)
  case Nil
  then show ?case by simp
next
  case (Cons e attrs)
  obtain key v where e: "e = (key, v)" by (cases e)
  have step: "renderReact_cleanProps ((key, v) # attrs) acc =
     (if vue_internal_key key then renderReact_cleanProps attrs acc
      else renderReact_cleanProps attrs (AList.update key v acc))"
    by (simp add: vue_internal_key_def)
  show ?case
  proof (cases "vue_internal_key key")
    case True
    then show ?thesis using Cons.IH[of acc] unfolding e step by auto
  next
    case False
    then show ?thesis
      using Cons.IH[of "AList.update key v acc"]
      unfolding e step by (auto simp: dom_update simp del: AList.update.simps)
  qed
qed

text \<open>
  The inline loops of \<open>renderReact\<close> are not \<open>filterProps\<close>. The first version's applies
  the key rule only: it neither drops a marked tree node nor unwraps a ref. The second
  version's lets nothing through whose \<open>typeof\<close> is \<open>object\<close>, \<open>null\<close> apart: plain objects
  and arrays are left out, and refs with them.
\<close>

lemma renderReact_cleanProps_keeps_wrappers:
  "renderReact_cleanProps
     [(''count'', RefImpl 1 (JNum 42)), (''vnode'', JObject 5 PlainObject [(''__v_isVNode'', JBool True)])] []
   = [(''count'', RefImpl 1 (JNum 42)), (''vnode'', JObject 5 PlainObject [(''__v_isVNode'', JBool True)])]
   \<and> filterProps
     [(''count'', RefImpl 1 (JNum 42)), (''vnode'', JObject 5 PlainObject [(''__v_isVNode'', JBool True)])]
   = [(''count'', JNum 42)]"
  by (simp add: filterProps_def startsWith_def isVNode_def)

lemma renderReact_cleanProps_old_drops_objects:
  "renderReact_cleanProps_old
     [(''title'', JStr ''Hello''), (''count'', RefImpl 1 (JNum 42)), (''none'', JNull),
      (''config'', JObject 2 PlainObject [(''theme'', JStr ''dark'')]),
      (''items'', JObject 3 ArrayObject [(''0'', JNum 1)])] []
   = [(''title'', JStr ''Hello''), (''none'', JNull)]"
  by (simp add: startsWith_def)











text \<open>
  C4. No key of the sanitized output starts with \<open>__\<close>, none starts with \<open>on\<close>, and none
  is \<open>class\<close> or \<open>style\<close>. The same holds of the props that the inline loop of
  \<open>renderReact\<close> builds, in either version.
\<close>
theorem sanitized_keys_never_internal:
  "(\<forall>key \<in> fst ` set (filterProps attrs).
      \<not> startsWith key ''__'' \<and> \<not> startsWith key ''on'' \<and> key \<noteq> ''class'' \<and> key \<noteq> ''style'')
   \<and> (\<forall>key \<in> fst ` set (renderReact_cleanProps attrs []).
      \<not> startsWith key ''__'' \<and> \<not> startsWith key ''on'' \<and> key \<noteq> ''class'' \<and> key \<noteq> ''style'')
   \<and> (\<forall>key \<in> fst ` set (renderReact_cleanProps_old attrs []).
      \<not> startsWith key ''__'' \<and> \<not> startsWith key ''on'' \<and> key \<noteq> ''class'' \<and> key \<noteq> ''style'')"
proof (intro conjI)
  show "\<forall>key \<in> fst ` set (filterProps attrs).
      \<not> startsWith key ''__'' \<and> \<not> startsWith key ''on'' \<and> key \<noteq> ''class'' \<and> key \<noteq> ''style''"
    using filterProps_keys[of attrs] by (auto simp: vue_internal_key_def)
next
  show "\<forall>key \<in> fst ` set (renderReact_cleanProps attrs []).
      \<not> startsWith key ''__'' \<and> \<not> startsWith key ''on'' \<and> key \<noteq> ''class'' \<and> key \<noteq> ''style''"
    using renderReact_cleanProps_keys[of attrs "[]"] by (auto simp: vue_internal_key_def)
next
  show "\<forall>key \<in> fst ` set (renderReact_cleanProps_old attrs []).
      \<not> startsWith key ''__'' \<and> \<not> startsWith key ''on'' \<and> key \<noteq> ''class'' \<and> key \<noteq> ''style''"
    using renderReact_cleanProps_old_keys[of attrs "[]"] by (auto simp: vue_internal_key_def)
qed

theorem sanitized_keys_never_internal_witness:
  "fst ` set (filterProps [(''__v_skip'', JBool True), (''onClick'', JFunction 1),
                           (''class'', JStr ''x''), (''style'', JStr ''y''),
                           (''title'', JStr ''Hello'')]) = {''title''}
   \<and> \<not> startsWith ''title'' ''__'' \<and> \<not> startsWith ''title'' ''on''
   \<and> ''title'' \<noteq> ''class'' \<and> ''title'' \<noteq> ''style''"
proof -
  let ?attrs = "[(''__v_skip'', JBool True), (''onClick'', JFunction 1),
                 (''class'', JStr ''x''), (''style'', JStr ''y''), (''title'', JStr ''Hello'')]"
  have k: "fst ` set (filterProps ?attrs) = {''title''}"
    by (simp add: filterProps_def startsWith_def isVNode_def)
  then have m: "''title'' \<in> fst ` set (filterProps ?attrs)" by simp
  from sanitized_keys_never_internal[of ?attrs]
  have "\<forall>key \<in> fst ` set (filterProps ?attrs).
      \<not> startsWith key ''__'' \<and> \<not> startsWith key ''on'' \<and> key \<noteq> ''class'' \<and> key \<noteq> ''style''"
    by (rule conjunct1)
  from bspec[OF this m] k show ?thesis by simp
qed

lemma isVNode_JObject:
  "isVNode (JObject i c ps) \<longleftrightarrow> (\<exists>m. map_of ps ''__v_isVNode'' = Some m \<and> truthy m)"
  by (auto simp: isVNode_def split: option.splits)

text \<open>
  C5. A top-level value that bears the marker (for an object: a truthy \<open>__v_isVNode\<close>
  field) is left out of the output, key and all; an object that does not bear it is
  kept as it is, also when one of its own properties holds a value that bears the
  marker.
\<close>
theorem vnode_marker_dropped_at_top_level_only:
  assumes "distinct (map fst attrs)" and "map_of attrs key = Some v"
  shows "(isVNode v \<longrightarrow> key \<notin> fst ` set (filterProps attrs))
       \<and> (isVNode (JObject i c ps) \<longleftrightarrow> (\<exists>m. map_of ps ''__v_isVNode'' = Some m \<and> truthy m))
       \<and> (v = JObject i c ps \<and> \<not> vue_internal_key key \<and> \<not> isVNode v
            \<and> map_of ps inner = Some nested \<and> isVNode nested
            \<longrightarrow> map_of (filterProps attrs) key = Some v)"
proof (intro conjI impI)
  assume "isVNode v"
  then have "map_of (filterProps attrs) key = None"
    using assms by (simp add: filterProps_map_of)
  then show "key \<notin> fst ` set (filterProps attrs)"
    by (simp add: map_of_eq_None_iff)
next
  show "isVNode (JObject i c ps) \<longleftrightarrow> (\<exists>m. map_of ps ''__v_isVNode'' = Some m \<and> truthy m)"
    by (rule isVNode_JObject)
next
  assume "v = JObject i c ps \<and> \<not> vue_internal_key key \<and> \<not> isVNode v
            \<and> map_of ps inner = Some nested \<and> isVNode nested"
  then show "map_of (filterProps attrs) key = Some v"
    using assms by (auto simp: filterProps_map_of unwrapped_def)
qed

theorem vnode_marker_dropped_at_top_level_only_witness:
  "filterProps
     [(''title'', JStr ''Hello''),
      (''vnode'', JObject 5 PlainObject [(''__v_isVNode'', JBool True), (''type'', JStr ''div'')]),
      (''slot'', JObject 6 PlainObject
          [(''child'', JObject 5 PlainObject [(''__v_isVNode'', JBool True), (''type'', JStr ''div'')])])]
   = [(''title'', JStr ''Hello''),
      (''slot'', JObject 6 PlainObject
          [(''child'', JObject 5 PlainObject [(''__v_isVNode'', JBool True), (''type'', JStr ''div'')])])]"
proof -
  let ?vn = "JObject 5 PlainObject [(''__v_isVNode'', JBool True), (''type'', JStr ''div'')]"
  let ?slot = "JObject 6 PlainObject [(''child'', ?vn)]"
  let ?attrs = "[(''title'', JStr ''Hello''), (''vnode'', ?vn), (''slot'', ?slot)]"
  have d: "distinct (map fst ?attrs)" by simp
  have top: "map_of ?attrs ''vnode'' = Some ?vn" by simp
  have nested: "map_of ?attrs ''slot'' = Some ?slot" by simp
  have marked: "isVNode ?vn" and unmarked: "\<not> isVNode ?slot"
    by (simp_all add: isVNode_def)
  have gone: "''vnode'' \<notin> fst ` set (filterProps ?attrs)"
    using vnode_marker_dropped_at_top_level_only[OF d top] marked by simp
  have kept: "map_of (filterProps ?attrs) ''slot'' = Some ?slot"
    using vnode_marker_dropped_at_top_level_only[OF d nested, where i = 6 and c = PlainObject
        and ps = "[(''child'', ?vn)]" and inner = "''child''" and nested = ?vn]
      marked unmarked
    by (simp add: vue_internal_key_def startsWith_def)
  have "filterProps ?attrs = [(''title'', JStr ''Hello''), (''slot'', ?slot)]"
    by (simp add: filterProps_def startsWith_def isVNode_def)
  with gone kept show ?thesis by simp
qed

text \<open>
  C9. Every key that starts with \<open>on\<close> is dropped, handler or not (\<open>once\<close> and \<open>online\<close>
  go like \<open>onClick\<close>); a function under a key that is kept (\<open>handleClick\<close>) passes
  through.
\<close>
theorem on_prefix_dropped_whatever_the_key:
  "(startsWith key ''on'' \<longrightarrow> key \<notin> fst ` set (filterProps attrs))
   \<and> (distinct (map fst attrs) \<and> map_of attrs key = Some (JFunction f)
        \<and> \<not> vue_internal_key key
        \<longrightarrow> map_of (filterProps attrs) key = Some (JFunction f))
   \<and> filterProps [(''once'', JBool True), (''online'', JBool False),
                   (''onClick'', JFunction 1), (''handleClick'', JFunction 2)]
       = [(''handleClick'', JFunction 2)]"
proof (intro conjI impI)
  assume "startsWith key ''on''"
  then show "key \<notin> fst ` set (filterProps attrs)"
    using filterProps_keys[of attrs] by (auto simp: vue_internal_key_def)
next
  assume "distinct (map fst attrs) \<and> map_of attrs key = Some (JFunction f)
        \<and> \<not> vue_internal_key key"
  then show "map_of (filterProps attrs) key = Some (JFunction f)"
    by (simp add: filterProps_map_of unwrapped_def isVNode_def)
next
  show "filterProps [(''once'', JBool True), (''online'', JBool False),
                   (''onClick'', JFunction 1), (''handleClick'', JFunction 2)]
       = [(''handleClick'', JFunction 2)]"
    by (simp add: filterProps_def startsWith_def isVNode_def)
qed

theorem on_prefix_dropped_whatever_the_key_witness:
  "''once'' \<notin> fst ` set (filterProps [(''once'', JBool True), (''renderItem'', JFunction 3)])
   \<and> map_of (filterProps [(''once'', JBool True), (''renderItem'', JFunction 3)]) ''renderItem''
       = Some (JFunction 3)"
proof -
  let ?attrs = "[(''once'', JBool True), (''renderItem'', JFunction 3)]"
  have a: "startsWith ''once'' ''on''" by (simp add: startsWith_def)
  have b: "distinct (map fst ?attrs) \<and> map_of ?attrs ''renderItem'' = Some (JFunction 3)
        \<and> \<not> vue_internal_key ''renderItem''"
    by (simp add: vue_internal_key_def startsWith_def)
  show ?thesis
    using on_prefix_dropped_whatever_the_key[of "''once''" ?attrs 3] a
      on_prefix_dropped_whatever_the_key[of "''renderItem''" ?attrs 3] b
    by blast
qed

section \<open>Properties of the transform hook\<close>

text \<open>
  What the hook does: it returns \<open>null\<close> exactly for the identifiers that do not both
  contain the text \<open>react-components\<close> and end in \<open>.jsx\<close> or \<open>.tsx\<close>; for the others it
  returns what esbuild made of the code (or fails as esbuild did), and a result whose
  code is empty is still not \<open>null\<close>.
\<close>

lemma transform_null_iff:
  "(transform esbuild_transform code file_id = Inr Null
      \<longleftrightarrow> \<not> (includes_str file_id ''react-components''
               \<and> (endsWith file_id ''.jsx'' \<or> endsWith file_id ''.tsx'')))
   \<and> (includes_str file_id ''react-components''
        \<and> (endsWith file_id ''.jsx'' \<or> endsWith file_id ''.tsx'')
      \<longrightarrow> transform esbuild_transform code file_id =
            (case esbuild_transform code (if endsWith file_id ''.tsx'' then Tsx else Jsx) of
               Inl err \<Rightarrow> Inl err
             | Inr (out_code, out_map) \<Rightarrow> Inr (Transformed out_code out_map)))
   \<and> Transformed [] out_map \<noteq> Null"
  by (auto simp: transform_def test_jtsx_def split: sum.splits prod.splits)

text \<open>
  A path with the segment \<open>react-components\<close> contains the text, so every \<open>.jsx\<close> or
  \<open>.tsx\<close> file in the folder is transformed. The converse is what fails.
\<close>

lemma split_str_nonempty: "split_str sep s \<noteq> []"
  by (induction s) (auto split: list.splits)

lemma split_str_first_piece:
  "split_str sep s = piece # pieces \<Longrightarrow> startsWith s piece"
proof (induction s arbitrary: piece pieces)
  case Nil
  then show ?case by (simp add: startsWith_def)
next
  case (Cons c cs)
  show ?case
  proof (cases "c = sep")
    case True
    with Cons.prems show ?thesis by (simp add: startsWith_def)
  next
    case False
    obtain q qs where sp: "split_str sep cs = q # qs"
      using split_str_nonempty[of sep cs] by (cases "split_str sep cs") auto
    from Cons.IH[OF sp] have "startsWith cs q" .
    moreover from Cons.prems False sp have "piece = c # q" by simp
    ultimately show ?thesis by (simp add: startsWith_def)
  qed
qed

lemma segment_is_included:
  "seg \<in> set (split_str sep s) \<Longrightarrow> includes_str s seg"
proof (induction s)
  case Nil
  then show ?case by simp
next
  case (Cons c cs)
  obtain q qs where sp: "split_str sep cs = q # qs"
    using split_str_nonempty[of sep cs] by (cases "split_str sep cs") auto
  show ?case
  proof (cases "c = sep")
    case True
    with Cons.prems have "seg = [] \<or> seg \<in> set (split_str sep cs)" by simp
    then show ?thesis
    proof
      assume "seg = []"
      then show ?thesis by (simp add: startsWith_def)
    next
      assume "seg \<in> set (split_str sep cs)"
      from Cons.IH[OF this] show ?thesis by simp
    qed
  next
    case False
    with Cons.prems sp have "seg = c # q \<or> seg \<in> set qs" by simp
    then show ?thesis
    proof
      assume seg: "seg = c # q"
      from split_str_first_piece[OF sp] have "startsWith (c # cs) (c # q)"
        by (simp add: startsWith_def)
      then show ?thesis by (simp add: seg)
    next
      assume "seg \<in> set qs"
      then have "seg \<in> set (split_str sep cs)" by (simp add: sp)
      from Cons.IH[OF this] show ?thesis by simp
    qed
  qed
qed

lemma transform_in_components_folder:
  assumes "in_components_folder file_id"
    and "endsWith file_id ''.jsx'' \<or> endsWith file_id ''.tsx''"
  shows "transform esbuild_transform code file_id \<noteq> Inr Null"
proof -
  from assms(1) have "includes_str file_id ''react-components''"
    using segment_is_included[of "''react-components''" "CHR ''/''" file_id]
    by (simp add: in_components_folder_def)
  with assms(2) have "includes_str file_id ''react-components''
      \<and> (endsWith file_id ''.jsx'' \<or> endsWith file_id ''.tsx'')" by simp
  with transform_null_iff[of esbuild_transform code file_id] show ?thesis by blast
qed

text \<open>
  C8. A file is transformed although it is in no \<open>react-components\<close> folder, as soon as
  the text stands anywhere in its identifier: \<open>/src/react-components.jsx\<close> (the text is
  the file's own name) and \<open>/src/my-react-components-old/x.jsx\<close> (the text is part of
  another folder's name) both go to esbuild, where "transformed only if the path
  contains the directory segment" has the hook return \<open>null\<close>.
\<close>

theorem transform_outside_components_folder:
  "\<not> in_components_folder ''/src/react-components.jsx''
   \<and> transform (\<lambda>code l. Inr (code, ''{}'')) ''export default 1'' ''/src/react-components.jsx''
       = Inr (Transformed ''export default 1'' ''{}'')
   \<and> \<not> in_components_folder ''/src/my-react-components-old/x.jsx''
   \<and> transform (\<lambda>code l. Inr (code, ''{}'')) ''export default 1''
         ''/src/my-react-components-old/x.jsx''
       = Inr (Transformed ''export default 1'' ''{}'')"
  by (simp add: in_components_folder_def transform_def test_jtsx_def startsWith_def endsWith_def)

theorem transform_outside_components_folder_witness:
  "transform (\<lambda>code l. Inr (code, ''{}'')) ''export default 1'' ''/src/react-components.jsx''
     \<noteq> Inr Null"
  using transform_outside_components_folder by simp

section \<open>Properties of the registry\<close>

lemma set_update_subset: "set (AList.update k v al) \<subseteq> insert (k, v) (set al)"
  by (induction al) auto

lemma loadRegistry_loop_entries:
  "(name, c) \<in> set (loadRegistry_loop ms reg) \<Longrightarrow>
     (name, c) \<in> set reg
     \<or> (name \<noteq> [] \<and> truthy c \<and> (\<exists>path. (path, Some c) \<in> set ms \<and> component_name path = name))"
proof (induction ms arbitrary: reg)
  case Nil
  then show ?case by simp
next
  case (Cons e ms)
  obtain path m where e: "e = (path, m)" by (cases e)
  show ?case
  proof (cases "component_name path \<noteq> [] \<and> truthy (mod_default m)")
    case True
    then obtain d where m: "m = Some d" by (cases m) (auto simp: mod_default_def)
    from Cons.prems True
    have "(name, c) \<in> set (loadRegistry_loop ms (AList.update (component_name path) d reg))"
      by (simp add: e m mod_default_def Let_def del: AList.update.simps)
    from Cons.IH[OF this]
    show ?thesis
    proof
      assume "(name, c) \<in> set (AList.update (component_name path) d reg)"
      then have "(name, c) \<in> set reg \<or> (name = component_name path \<and> c = d)"
        using set_update_subset[of "component_name path" d reg] by (auto simp del: AList.update.simps)
      then show ?thesis using True by (auto simp: e m mod_default_def)
    next
      assume "name \<noteq> [] \<and> truthy c
              \<and> (\<exists>path. (path, Some c) \<in> set ms \<and> component_name path = name)"
      then show ?thesis by (auto simp: e)
    qed
  next
    case False
    with Cons.prems have "(name, c) \<in> set (loadRegistry_loop ms reg)"
      by (auto simp: e Let_def simp del: AList.update.simps)
    from Cons.IH[OF this] show ?thesis by (auto simp: e)
  qed
qed

lemma split_str_no_sep: "sep \<notin> set s \<Longrightarrow> split_str sep s = [s]"
  by (induction s) (auto split: list.splits)

lemma last_split_str_append:
  "last (split_str sep (dir @ sep # rest)) = last (split_str sep rest)"
proof (induction dir)
  case Nil
  then show ?case by (simp add: split_str_nonempty)
next
  case (Cons c dir)
  have ne: "split_str sep (dir @ sep # rest) \<noteq> []" by (rule split_str_nonempty)
  then obtain x xs where sp: "split_str sep (dir @ sep # rest) = x # xs"
    by (cases "split_str sep (dir @ sep # rest)") auto
  have xs: "xs \<noteq> []"
  proof
    assume "xs = []"
    with sp have "length (split_str sep (dir @ sep # rest)) = 1" by simp
    moreover have "2 \<le> length (split_str sep (dir @ sep # rest))"
    proof (induction dir)
      case Nil
      have "split_str sep rest \<noteq> []" by (rule split_str_nonempty)
      then show ?case by (cases "split_str sep rest") auto
    next
      case (Cons d dir)
      have "split_str sep (dir @ sep # rest) \<noteq> []" by (rule split_str_nonempty)
      with Cons show ?case by (cases "split_str sep (dir @ sep # rest)") auto
    qed
    ultimately show False by simp
  qed
  show ?case using Cons sp xs by auto
qed

lemma endsWith_append: "endsWith (s @ p) p"
  by (simp add: endsWith_def)

lemma component_name_of_file:
  assumes "CHR ''/'' \<notin> set base" and "ext = ''.jsx'' \<or> ext = ''.tsx''"
  shows "component_name (dir @ ''/'' @ base @ ext) = base"
proof -
  from assms(2) have e: "CHR ''/'' \<notin> set ext" and l: "length ext = 4" by auto
  have "last (split_str CHR ''/'' (dir @ ''/'' @ base @ ext)) = last (split_str CHR ''/'' (base @ ext))"
    using last_split_str_append[of "CHR ''/''" dir "base @ ext"] by simp
  also have "\<dots> = base @ ext" using assms(1) e by (simp add: split_str_no_sep)
  finally have f: "last (split_str CHR ''/'' (dir @ ''/'' @ base @ ext)) = base @ ext" .
  have "endsWith (base @ ext) ''.jsx'' \<or> endsWith (base @ ext) ''.tsx''"
    using assms(2) endsWith_append by auto
  then show ?thesis
    unfolding component_name_def f Let_def using l by simp
qed

section \<open>Properties of the bridge\<close>

lemma loads_started_emit:
  "loads_started b (emit ev s) = loads_started b s + (if ev = LoadRegistry b then 1 else 0)"
  by (simp add: loads_started_def emit_def)

lemma loads_started_suspend [simp]: "loads_started b (suspend b' k s) = loads_started b s"
  by (simp add: loads_started_def suspend_def)

lemma loads_started_set_bridge [simp]: "loads_started b (set_bridge b' br s) = loads_started b s"
  by (simp add: loads_started_def set_bridge_def)

lemma loads_started_tasks_update [simp]: "loads_started b (s\<lparr>tasks := ts\<rparr>) = loads_started b s"
  by (simp add: loads_started_def)

lemma loads_started_next_root_update [simp]: "loads_started b (s\<lparr>next_root := n\<rparr>) = loads_started b s"
  by (simp add: loads_started_def)

text \<open>
  The three later segments of \<open>renderReact\<close> and the unmounted hook leave the registry,
  the mount point, the load count and the calls that wait for a load as they were.
\<close>

lemma resolve_frame:
  "registry (bridges (renderReact_resolve e b' s) b) = registry (bridges s b)
   \<and> container (bridges (renderReact_resolve e b' s) b) = container (bridges s b)
   \<and> loads_started b (renderReact_resolve e b' s) = loads_started b s
   \<and> ((b, AwaitLoadRegistry) \<in> set (tasks (renderReact_resolve e b' s))
        \<longleftrightarrow> (b, AwaitLoadRegistry) \<in> set (tasks s))"
  by (simp add: renderReact_resolve_def Let_def loads_started_emit)
     (simp add: emit_def suspend_def)

lemma createRoot_frame:
  "registry (bridges (renderReact_createRoot e b' c s) b) = registry (bridges s b)
   \<and> container (bridges (renderReact_createRoot e b' c s) b) = container (bridges s b)
   \<and> loads_started b (renderReact_createRoot e b' c s) = loads_started b s
   \<and> ((b, AwaitLoadRegistry) \<in> set (tasks (renderReact_createRoot e b' c s))
        \<longleftrightarrow> (b, AwaitLoadRegistry) \<in> set (tasks s))"
  by (simp add: renderReact_createRoot_def loads_started_emit split: option.splits)
     (simp add: emit_def suspend_def set_bridge_def)

lemma render_frame:
  "registry (bridges (renderReact_render e b' c s) b) = registry (bridges s b)
   \<and> container (bridges (renderReact_render e b' c s) b) = container (bridges s b)
   \<and> loads_started b (renderReact_render e b' c s) = loads_started b s
   \<and> ((b, AwaitLoadRegistry) \<in> set (tasks (renderReact_render e b' c s))
        \<longleftrightarrow> (b, AwaitLoadRegistry) \<in> set (tasks s))"
  by (simp add: renderReact_render_def Let_def loads_started_emit split: option.splits)
     (simp add: emit_def)

lemma loadRegistry_import_effect:
  "registry (bridges (loadRegistry_import e b' s) b)
     = (if b = b' then Some (case index_module e of Some reg \<Rightarrow> reg | None \<Rightarrow> [])
        else registry (bridges s b))
   \<and> loads_started b (loadRegistry_import e b' s) = loads_started b s
   \<and> tasks (loadRegistry_import e b' s) = tasks s"
  by (simp add: loadRegistry_import_def loads_started_emit split: option.splits)
     (simp add: emit_def set_bridge_def)

lemma onUnmounted_frame:
  "registry (bridges (onUnmounted b' s) b) = registry (bridges s b)
   \<and> loads_started b (onUnmounted b' s) = loads_started b s
   \<and> tasks (onUnmounted b' s) = tasks s"
  by (simp add: onUnmounted_def loads_started_emit split: option.splits)
     (simp add: emit_def set_bridge_def)

lemma loadRegistry_effect:
  "registry (bridges (loadRegistry e b' s) b)
     = (if b = b' then Some (loadRegistry_loop (glob_modules e) []) else registry (bridges s b))
   \<and> container (bridges (loadRegistry e b' s) b) = container (bridges s b)
   \<and> loads_started b (loadRegistry e b' s) = loads_started b s + (if b = b' then 1 else 0)
   \<and> tasks (loadRegistry e b' s) = tasks s
   \<and> events (loadRegistry e b' s) = events s @ [LoadRegistry b']"
  by (simp add: loadRegistry_def loads_started_emit)
     (simp add: emit_def set_bridge_def)

lemma load_once_frame:
  assumes "load_once b s"
    and "registry (bridges s' b) = registry (bridges s b)"
    and "loads_started b s' = loads_started b s"
    and "(b, AwaitLoadRegistry) \<in> set (tasks s') \<Longrightarrow> (b, AwaitLoadRegistry) \<in> set (tasks s)"
  shows "load_once b s'"
  using assms unfolding load_once_def by auto

lemma renderReact_load_once:
  assumes "load_once b s" and scan: "version e = DirectoryScan"
  shows "load_once b (renderReact e b' s)"
proof (cases "container (bridges s b') = None")
  case True
  then show ?thesis using assms by (simp add: renderReact_def)
next
  case ready: False
  show ?thesis
  proof (cases "registry (bridges s b') = None")
    case True
    then have r: "renderReact e b' s = suspend b' AwaitLoadRegistry (loadRegistry e b' s)"
      using ready scan by (auto simp: renderReact_def)
    show ?thesis
      using assms(1) True unfolding r load_once_def
      by (auto simp: loadRegistry_effect suspend_def)
  next
    case False
    then have r: "renderReact e b' s = renderReact_resolve e b' s"
      using ready by (auto simp: renderReact_def)
    show ?thesis unfolding r
      by (rule load_once_frame[OF assms(1)]) (simp_all add: resolve_frame)
  qed
qed

lemma set_bridge_load_once:
  assumes "load_once b s" and "registry br = registry (bridges s b')"
  shows "load_once b (set_bridge b' br s)"
  by (rule load_once_frame[OF assms(1)]) (simp_all add: assms(2) set_bridge_def loads_started_def)

lemma resume_load_once:
  assumes "load_once b s"
  shows "load_once b (resume e i s)"
proof (cases "i < length (tasks s)")
  case False
  then show ?thesis using assms by (simp add: resume_def)
next
  case True
  let ?s' = "s\<lparr>tasks := take i (tasks s) @ drop (Suc i) (tasks s)\<rparr>"
  have sub: "set (tasks ?s') \<subseteq> set (tasks s)"
    using set_take_subset[of i "tasks s"] set_drop_subset[of "Suc i" "tasks s"] by auto
  have inv': "load_once b ?s'"
    by (rule load_once_frame[OF assms]) (use sub in auto)
  obtain b' k where t: "tasks s ! i = (b', k)" by (cases "tasks s ! i")
  show ?thesis
  proof (cases k)
    case AwaitIndexImport
    then have r: "resume e i s = suspend b' AwaitLoadRegistry (loadRegistry_import e b' ?s')"
      using True t by (simp add: resume_def Let_def)
    show ?thesis
      using inv' unfolding r load_once_def
      by (auto simp: loadRegistry_import_effect suspend_def)
  next
    case AwaitLoadRegistry
    then have r: "resume e i s = renderReact_resolve e b' ?s'"
      using True t by (simp add: resume_def Let_def)
    show ?thesis unfolding r
      by (rule load_once_frame[OF inv']) (simp_all add: resolve_frame)
  next
    case (AwaitReactDOMClient c)
    then have r: "resume e i s = renderReact_createRoot e b' c ?s'"
      using True t by (simp add: resume_def Let_def)
    show ?thesis unfolding r
      by (rule load_once_frame[OF inv']) (simp_all add: createRoot_frame)
  next
    case (AwaitReact c)
    then have r: "resume e i s = renderReact_render e b' c ?s'"
      using True t by (simp add: resume_def Let_def)
    show ?thesis unfolding r
      by (rule load_once_frame[OF inv']) (simp_all add: render_frame)
  qed
qed

lemma fire_load_once:
  assumes "load_once b s" and scan: "version e = DirectoryScan"
  shows "load_once b (fire e a s)"
proof (cases a)
  case (Mount b' el)
  show ?thesis unfolding Mount fire.simps
    by (rule renderReact_load_once[OF _ scan], rule set_bridge_load_once[OF assms(1)]) simp
next
  case (AttrsChanged b' x)
  show ?thesis unfolding AttrsChanged fire.simps
    by (rule renderReact_load_once[OF _ scan], rule set_bridge_load_once[OF assms(1)]) simp
next
  case (NameChanged b' n)
  show ?thesis unfolding NameChanged fire.simps
    by (rule renderReact_load_once[OF _ scan], rule set_bridge_load_once[OF assms(1)]) simp
next
  case (Destroy b')
  have "load_once b (set_bridge b' ((bridges s b')\<lparr>container := None\<rparr>) s)"
    by (rule set_bridge_load_once[OF assms(1)]) simp
  then show ?thesis unfolding Destroy fire.simps
    by (rule load_once_frame) (simp_all add: onUnmounted_frame)
next
  case (Resume i)
  then show ?thesis using resume_load_once[OF assms(1)] by simp
qed

lemma run_load_once:
  "load_once b s \<Longrightarrow> version e = DirectoryScan \<Longrightarrow> load_once b (run e acts s)"
proof (induction acts arbitrary: s)
  case Nil
  then show ?case by simp
next
  case (Cons a acts)
  from Cons.IH[OF fire_load_once[OF Cons.prems] Cons.prems(2)] show ?case by simp
qed

text \<open>
  C3, amended. With the directory scan, in every run, whatever the interleaving, a
  bridge calls \<open>loadRegistry\<close> at most once; and whenever one of its calls is suspended
  at \<open>await loadRegistry()\<close>, its registry is already there (the load ran to its end
  inside the call), so that a later request of the same bridge goes past the load.
\<close>

theorem each_bridge_loads_at_most_once:
  assumes "version e = DirectoryScan"
  shows "loads_started b (run e acts (start names)) \<le> 1
   \<and> ((b, AwaitLoadRegistry) \<in> set (tasks (run e acts (start names)))
        \<longrightarrow> registry (bridges (run e acts (start names)) b) \<noteq> None)"
proof -
  have "load_once b (start names)"
    by (simp add: load_once_def start_def new_bridge_def loads_started_def)
  from run_load_once[OF this assms, of acts] show ?thesis
    by (auto simp: load_once_def)
qed

lemmas bridge_defs = start_def new_bridge_def renderReact_def loadRegistry_def
  loadRegistry_import_def
  renderReact_resolve_def renderReact_createRoot_def renderReact_render_def resume_def
  onUnmounted_def emit_def suspend_def set_bridge_def Let_def
  component_name_def endsWith_def mod_default_def not_found_message_def
  object_prototype_names_def startsWith_def

text \<open>
  C3, as stated, fails. In the first version, while the call of bridge 0 is still
  suspended at \<open>await loadRegistry()\<close>, the mount of bridge 1 starts a second load:
  nothing is shared between bridges. In the second version one bridge is enough: while
  its first call is inside \<open>loadRegistry\<close>, waiting for the import, a change of its
  component name (the watch on \<open>props.is\<close>) enters \<open>loadRegistry\<close> again, and both
  calls are in flight.
\<close>

theorem second_mount_starts_second_load:
  "(0, AwaitLoadRegistry)
     \<in> set (tasks (run \<lparr>version = DirectoryScan,
      glob_modules = [(''/react-components/Counter.jsx'', Some (JFunction 1))],
      index_module = None,
                          has_createRoot = True\<rparr>
                        [Mount 0 10] (start [''Counter'', ''Counter''])))
   \<and> events (run \<lparr>version = DirectoryScan,
      glob_modules = [(''/react-components/Counter.jsx'', Some (JFunction 1))],
      index_module = None,
                    has_createRoot = True\<rparr>
                  [Mount 0 10] (start [''Counter'', ''Counter''])) = [LoadRegistry 0]
   \<and> events (run \<lparr>version = DirectoryScan,
      glob_modules = [(''/react-components/Counter.jsx'', Some (JFunction 1))],
      index_module = None,
                    has_createRoot = True\<rparr>
                  [Mount 0 10, Mount 1 11] (start [''Counter'', ''Counter'']))
       = [LoadRegistry 0, LoadRegistry 1]
   \<and> tasks (run \<lparr>version = ExplicitMap, glob_modules = [],
                   index_module = Some [(''Counter'', JFunction 1), (''Card'', JFunction 2)],
                   has_createRoot = True\<rparr>
                 [Mount 0 10, NameChanged 0 ''Card''] (start [''Counter'']))
       = [(0, AwaitIndexImport), (0, AwaitIndexImport)]
   \<and> events (run \<lparr>version = ExplicitMap, glob_modules = [],
                    index_module = Some [(''Counter'', JFunction 1), (''Card'', JFunction 2)],
                    has_createRoot = True\<rparr>
                  [Mount 0 10, NameChanged 0 ''Card''] (start [''Counter'']))
       = [LoadRegistry 0, LoadRegistry 0]"
  by (simp add: bridge_defs)

theorem each_bridge_loads_at_most_once_witness:
  "loads_started 0 (run \<lparr>version = DirectoryScan,
      glob_modules = [(''/react-components/Counter.jsx'', Some (JFunction 1))],
      index_module = None,
                          has_createRoot = True\<rparr>
                        [Mount 0 10, NameChanged 0 ''Card'', Resume 0, Resume 0]
                        (start [''Counter'', ''Counter''])) = 1
   \<and> registry (bridges (run \<lparr>version = DirectoryScan,
      glob_modules = [(''/react-components/Counter.jsx'', Some (JFunction 1))],
      index_module = None,
                          has_createRoot = True\<rparr>
                        [Mount 0 10] (start [''Counter'', ''Counter''])) 0)
       = Some [(''Counter'', JFunction 1)]"
proof -
  let ?e = "\<lparr>version = DirectoryScan,
      glob_modules = [(''/react-components/Counter.jsx'', Some (JFunction 1))],
      index_module = None,
             has_createRoot = True\<rparr>"
  have a: "loads_started 0 (run ?e [Mount 0 10, NameChanged 0 ''Card'', Resume 0, Resume 0]
                     (start [''Counter'', ''Counter''])) = 1"
    by (simp add: bridge_defs loads_started_def)
  have w: "(0, AwaitLoadRegistry) \<in> set (tasks (run ?e [Mount 0 10] (start [''Counter'', ''Counter''])))"
    by (simp add: bridge_defs)
  have r: "registry (bridges (run ?e [Mount 0 10] (start [''Counter'', ''Counter''])) 0)
             = Some [(''Counter'', JFunction 1)]"
    by (simp add: bridge_defs)
  have scan: "version ?e = DirectoryScan" by simp
  from a r w each_bridge_loads_at_most_once[OF scan, of 0 "[Mount 0 10]" "[''Counter'', ''Counter'']"]
  show ?thesis by simp
qed

text \<open>
  A name that the registry neither holds nor inherits takes the other branch: one warning
  that lists the known names, no guest root, no render, no suspended call.
\<close>

lemma missing_name_warns:
  "events (run \<lparr>version = DirectoryScan,
      glob_modules = [(''/react-components/Counter.jsx'', Some (JFunction 1))],
      index_module = None,
                  has_createRoot = True\<rparr>
                [Mount 0 10, Resume 0] (start [''Missing'']))
     = [LoadRegistry 0,
        ConsoleWarn (''[slidev-addon-react] Component '' @ [CHR 0x22] @ ''Missing'' @ [CHR 0x22]
                       @ '' not found. Available: Counter'')]"
  by (simp add: bridge_defs)

lemma unknown_name_warns:
  assumes "container (bridges s b) \<noteq> None" and "registry (bridges s b) = Some reg"
    and "map_of reg (is_prop (bridges s b)) = None"
    and "is_prop (bridges s b) \<notin> set object_prototype_names"
  shows "renderReact e b s
           = emit (ConsoleWarn (not_found_message (is_prop (bridges s b)) (Some reg))) s"
  using assms by (auto simp: renderReact_def renderReact_resolve_def Let_def)

text \<open>
  C6. A name that the registry object inherits does not take the not-found branch: with
  only \<open>Counter.jsx\<close> scanned, a bridge mounted with the name \<open>constructor\<close> finds
  \<open>Object.prototype.constructor\<close> under \<open>registry?.[props.is]\<close>, logs no warning,
  creates a guest root and calls render.
\<close>

theorem inherited_name_is_rendered:
  "events (run \<lparr>version = DirectoryScan,
      glob_modules = [(''/react-components/Counter.jsx'', Some (JFunction 1))],
      index_module = None,
                  has_createRoot = True\<rparr>
                [Mount 0 10, Resume 0, Resume 0, Resume 0] (start [''constructor'']))
     = [LoadRegistry 0, CreateRoot 0 10 0, Render 0 0 (JBuiltin ''constructor'') []]"
  by (simp add: bridge_defs)

text \<open>
  Once the mount point is cleared, a render request returns at the first line of
  \<open>renderReact\<close>.
\<close>

lemma late_request_is_discarded:
  assumes "container (bridges s b) = None" and "render_request b a"
  shows "events (fire e a s) = events s \<and> tasks (fire e a s) = tasks s
         \<and> container (bridges (fire e a s) b) = None
         \<and> root (bridges (fire e a s) b) = root (bridges s b)"
  using assms by (cases a) (simp_all add: renderReact_def set_bridge_def)

lemma late_requests_are_discarded:
  assumes "container (bridges s b) = None" and "list_all (render_request b) reqs"
  shows "events (run e reqs s) = events s \<and> tasks (run e reqs s) = tasks s
         \<and> root (bridges (run e reqs s) b) = root (bridges s b)"
  using assms
proof (induction reqs arbitrary: s)
  case Nil
  then show ?case by simp
next
  case (Cons a reqs)
  from Cons.prems have a: "render_request b a" and rest: "list_all (render_request b) reqs"
    by simp_all
  note step = late_request_is_discarded[OF Cons.prems(1) a, of e]
  from step have c: "container (bridges (fire e a s) b) = None" by simp
  from Cons.IH[OF c rest] step show ?case by simp
qed

lemma destroy_effect:
  "container (bridges (fire e (Destroy b) s) b) = None
   \<and> root (bridges (fire e (Destroy b) s) b) = None
   \<and> tasks (fire e (Destroy b) s) = tasks s
   \<and> events (fire e (Destroy b) s)
       = events s @ (case root (bridges s b) of None \<Rightarrow> [] | Some r \<Rightarrow> [Unmount b r])"
  by (simp add: onUnmounted_def set_bridge_def emit_def split: option.splits)

text \<open>
  C7. Destroying a bridge unmounts its guest root if it has one and sets \<open>root\<close> to
  \<open>null\<close>; render requests that arrive afterwards add no event (no render call, no
  exception) and leave no suspended call behind.
\<close>

theorem destroyed_bridge_renders_no_more:
  "root (bridges (fire e (Destroy b) s) b) = None
   \<and> events (fire e (Destroy b) s)
       = events s @ (case root (bridges s b) of None \<Rightarrow> [] | Some r \<Rightarrow> [Unmount b r])
   \<and> (list_all (render_request b) reqs
        \<longrightarrow> events (run e reqs (fire e (Destroy b) s)) = events (fire e (Destroy b) s)
            \<and> tasks (run e reqs (fire e (Destroy b) s)) = tasks s
            \<and> root (bridges (run e reqs (fire e (Destroy b) s)) b) = None)"
  using destroy_effect[of e b s]
    late_requests_are_discarded[of "fire e (Destroy b) s" b reqs e]
  by simp

theorem destroyed_bridge_renders_no_more_witness:
  "events (run \<lparr>version = DirectoryScan,
      glob_modules = [(''/react-components/Counter.jsx'', Some (JFunction 1))],
      index_module = None,
                  has_createRoot = True\<rparr>
                [Mount 0 10, Resume 0, Resume 0, Resume 0, Destroy 0,
                 AttrsChanged 0 [(''initial'', JNum 5)], NameChanged 0 ''Card'']
                (start [''Counter'', ''Counter'']))
     = [LoadRegistry 0, CreateRoot 0 10 0, Render 0 0 (JFunction 1) [], Unmount 0 0]
   \<and> tasks (run \<lparr>version = DirectoryScan,
      glob_modules = [(''/react-components/Counter.jsx'', Some (JFunction 1))],
      index_module = None,
                  has_createRoot = True\<rparr>
                [Mount 0 10, Resume 0, Resume 0, Resume 0, Destroy 0,
                 AttrsChanged 0 [(''initial'', JNum 5)], NameChanged 0 ''Card'']
                (start [''Counter'', ''Counter''])) = []"
proof -
  let ?e = "\<lparr>version = DirectoryScan,
      glob_modules = [(''/react-components/Counter.jsx'', Some (JFunction 1))],
      index_module = None,
             has_createRoot = True\<rparr>"
  let ?s = "run ?e [Mount 0 10, Resume 0, Resume 0, Resume 0] (start [''Counter'', ''Counter''])"
  let ?reqs = "[AttrsChanged 0 [(''initial'', JNum 5)], NameChanged 0 ''Card'']"
  have ev: "events ?s = [LoadRegistry 0, CreateRoot 0 10 0, Render 0 0 (JFunction 1) []]"
    and ts: "tasks ?s = []" and rt: "root (bridges ?s 0) = Some 0"
    by (simp_all add: bridge_defs)
  have late: "list_all (render_request 0) ?reqs" by simp
  have split: "run ?e ([Mount 0 10, Resume 0, Resume 0, Resume 0] @ Destroy 0 # ?reqs)
                 (start [''Counter'', ''Counter''])
               = run ?e ?reqs (fire ?e (Destroy 0) ?s)"
    by simp
  from destroyed_bridge_renders_no_more[of ?e 0 ?s ?reqs] late ev ts rt
  have "events (run ?e ?reqs (fire ?e (Destroy 0) ?s))
          = [LoadRegistry 0, CreateRoot 0 10 0, Render 0 0 (JFunction 1) [], Unmount 0 0]"
    and "tasks (run ?e ?reqs (fire ?e (Destroy 0) ?s)) = []"
    by simp_all
  with split show ?thesis by simp
qed

text \<open>
  The statement is about requests that arrive after the destruction. A call that was
  already suspended when the bridge was destroyed is resumed all the same; it renders
  nothing, and ends in an exception, since \<open>container.value\<close> and \<open>root\<close> are \<open>null\<close> by
  then.
\<close>

lemma suspended_call_resumed_after_destroy:
  "events (run \<lparr>version = DirectoryScan,
      glob_modules = [(''/react-components/Counter.jsx'', Some (JFunction 1))],
      index_module = None,
                  has_createRoot = True\<rparr>
                [Mount 0 10, Resume 0, Destroy 0, Resume 0] (start [''Counter'', ''Counter'']))
     = [LoadRegistry 0, Uncaught 0 ''createRoot: target container is null'']
   \<and> events (run \<lparr>version = DirectoryScan,
      glob_modules = [(''/react-components/Counter.jsx'', Some (JFunction 1))],
      index_module = None,
                  has_createRoot = True\<rparr>
                [Mount 0 10, Resume 0, Resume 0, Destroy 0, Resume 0] (start [''Counter'', ''Counter'']))
     = [LoadRegistry 0, CreateRoot 0 10 0, Unmount 0 0, Uncaught 0 ''TypeError: root is null'']"
  by (simp add: bridge_defs)

section \<open>Properties of the directory scan\<close>

text \<open>
  C10. The scan puts a name in the registry only for a file whose derived name is not
  empty and whose module has a (truthy) default export, which is the value registered;
  a name whose files all lack a default export is not in the registry, and the load
  writes nothing to the console. The derived name of \<open>dir/base.jsx\<close> or \<open>dir/base.tsx\<close>
  is \<open>base\<close>.
\<close>

theorem scan_registers_default_exports_only:
  "(\<forall>name c. (name, c) \<in> set (loadRegistry_loop ms [])
       \<longrightarrow> name \<noteq> [] \<and> truthy c
           \<and> (\<exists>path. (path, Some c) \<in> set ms \<and> component_name path = name))
   \<and> ((\<forall>path m. (path, m) \<in> set ms \<and> component_name path = name \<longrightarrow> m = None)
        \<longrightarrow> name \<notin> fst ` set (loadRegistry_loop ms []))
   \<and> registry (bridges (loadRegistry e b s) b) = Some (loadRegistry_loop (glob_modules e) [])
   \<and> events (loadRegistry e b s) = events s @ [LoadRegistry b]
   \<and> (CHR ''/'' \<notin> set base \<and> (ext = ''.jsx'' \<or> ext = ''.tsx'')
        \<longrightarrow> component_name (dir @ ''/'' @ base @ ext) = base)"
proof (intro conjI allI impI)
  fix name c
  assume "(name, c) \<in> set (loadRegistry_loop ms [])"
  from loadRegistry_loop_entries[OF this]
  show "name \<noteq> []" and "truthy c"
    and "\<exists>path. (path, Some c) \<in> set ms \<and> component_name path = name"
    by auto
next
  assume none: "\<forall>path m. (path, m) \<in> set ms \<and> component_name path = name \<longrightarrow> m = None"
  show "name \<notin> fst ` set (loadRegistry_loop ms [])"
  proof
    assume "name \<in> fst ` set (loadRegistry_loop ms [])"
    then obtain c where "(name, c) \<in> set (loadRegistry_loop ms [])" by auto
    from loadRegistry_loop_entries[OF this]
    obtain path where "(path, Some c) \<in> set ms" and "component_name path = name" by auto
    with none show False by blast
  qed
next
  show "registry (bridges (loadRegistry e b s) b) = Some (loadRegistry_loop (glob_modules e) [])"
    by (simp add: loadRegistry_effect)
next
  show "events (loadRegistry e b s) = events s @ [LoadRegistry b]"
    by (simp add: loadRegistry_effect)
next
  assume "CHR ''/'' \<notin> set base \<and> (ext = ''.jsx'' \<or> ext = ''.tsx'')"
  then show "component_name (dir @ ''/'' @ base @ ext) = base"
    using component_name_of_file[of base ext dir] by blast
qed

theorem scan_registers_default_exports_only_witness:
  "loadRegistry_loop
     [(''/react-components/Counter.jsx'', Some (JFunction 1)),
      (''/react-components/ui/Card.tsx'', Some (JFunction 2)),
      (''/react-components/helpers.jsx'', None),
      (''/react-components/.jsx'', Some (JFunction 3))] []
   = [(''Counter'', JFunction 1), (''Card'', JFunction 2)]
   \<and> ''helpers'' \<notin> fst ` set (loadRegistry_loop
     [(''/react-components/Counter.jsx'', Some (JFunction 1)),
      (''/react-components/ui/Card.tsx'', Some (JFunction 2)),
      (''/react-components/helpers.jsx'', None),
      (''/react-components/.jsx'', Some (JFunction 3))] [])
   \<and> component_name ''/react-components/helpers.jsx'' = ''helpers''"
proof -
  let ?ms = "[(''/react-components/Counter.jsx'', Some (JFunction 1)),
      (''/react-components/ui/Card.tsx'', Some (JFunction 2)),
      (''/react-components/helpers.jsx'', None),
      (''/react-components/.jsx'', Some (JFunction 3))]"
  have names: "component_name ''/react-components/Counter.jsx'' = ''Counter''"
    "component_name ''/react-components/ui/Card.tsx'' = ''Card''"
    "component_name ''/react-components/helpers.jsx'' = ''helpers''"
    "component_name ''/react-components/.jsx'' = []"
    by (simp_all add: component_name_def endsWith_def)
  have all: "loadRegistry_loop ?ms [] = [(''Counter'', JFunction 1), (''Card'', JFunction 2)]"
    by (simp add: names mod_default_def)
  have none: "\<forall>path m. (path, m) \<in> set ?ms \<and> component_name path = ''helpers'' \<longrightarrow> m = None"
    by (auto simp: names)
  have slash: "CHR ''/'' \<notin> set ''helpers'' \<and> (''.jsx'' = ''.jsx'' \<or> ''.jsx'' = ''.tsx'')"
    by simp
  from scan_registers_default_exports_only[of ?ms "''helpers''" _ _ _ "''helpers''" "''.jsx''" "''/react-components''"]
    none slash
  have "''helpers'' \<notin> fst ` set (loadRegistry_loop ?ms [])"
    and "component_name (''/react-components'' @ ''/'' @ ''helpers'' @ ''.jsx'') = ''helpers''"
    by blast+
  with all show ?thesis by simp
qed

end
